theory Spec2Isabelle
  imports Main "HOL-Library.AList" "HOL-Library.Char_ord" "HOL-Library.List_Lexorder"
begin

section \<open>Library functions the program calls\<close>

subsection \<open>Errors\<close>

text \<open>
  Go's \<^verbatim>\<open>error\<close> values.  The program builds one error of its own,
  \<^verbatim>\<open>fmt.Errorf("invalid filename")\<close>; every other error is handed back by a
  library call and passed on unchanged.  A Go \<^verbatim>\<open>error\<close> that may be
  \<^verbatim>\<open>nil\<close> is an \<open>error option\<close>.
\<close>

datatype error =
    Errorf string   \<comment> \<open>\<^verbatim>\<open>fmt.Errorf(msg)\<close>\<close>
  | Errno string    \<comment> \<open>an error of the operating system or of a library\<close>

abbreviation InvalidFilename :: error where
  "InvalidFilename \<equiv> Errorf ''invalid filename''"

subsection \<open>\<^verbatim>\<open>path/filepath\<close> on Unix\<close>

definition IsPathSeparator :: "char \<Rightarrow> bool" where
  "IsPathSeparator c = (c = CHR ''/'')"

text \<open>
  \<open>at_end_or_sep cs\<close> is the test \<^verbatim>\<open>r+1 == n || os.IsPathSeparator(path[r+1])\<close>
  of \<^verbatim>\<open>Clean\<close>, where \<open>cs\<close> is the input after the byte at \<open>r\<close>.
\<close>

definition at_end_or_sep :: "string \<Rightarrow> bool" where
  "at_end_or_sep cs = (case cs of [] \<Rightarrow> True | d # _ \<Rightarrow> IsPathSeparator d)"

text \<open>
  The backtracking of a \<^verbatim>\<open>..\<close> element:
  \<^verbatim>\<open>
  out.w--
  for out.w > dotdot && !os.IsPathSeparator(out.index(out.w)) { out.w-- }
  \<close>
  \<open>retreat dotdot buf w\<close> runs the \<^verbatim>\<open>for\<close> loop from write index \<open>w\<close>.
\<close>

fun retreat :: "nat \<Rightarrow> string \<Rightarrow> nat \<Rightarrow> nat" where
  "retreat dotdot buf w =
     (if w > dotdot \<and> \<not> IsPathSeparator (buf ! w) then retreat dotdot buf (w - 1) else w)"

declare retreat.simps [simp del]

definition backtrack :: "nat \<Rightarrow> string \<Rightarrow> string" where
  "backtrack dotdot out = take (retreat dotdot out (length out - 1)) out"

text \<open>
  The main loop of \<^verbatim>\<open>filepath.Clean\<close>.  The first string is the input still to
  be read (\<^verbatim>\<open>path[r:]\<close>), \<open>out\<close> is the buffer written so far (its length is
  \<^verbatim>\<open>out.w\<close>), \<open>dotdot\<close> the index where \<^verbatim>\<open>..\<close> must stop.  The loop
  returns the final \<open>dotdot\<close> and buffer.
\<close>

function clean_loop :: "bool \<Rightarrow> string \<Rightarrow> nat \<Rightarrow> string \<Rightarrow> nat \<times> string" where
  "clean_loop rooted [] dotdot out = (dotdot, out)"
| "clean_loop rooted (c # cs) dotdot out =
     (if IsPathSeparator c then
        \<comment> \<open>empty path element\<close>
        clean_loop rooted cs dotdot out
      else if c = CHR ''.'' \<and> at_end_or_sep cs then
        \<comment> \<open>\<^verbatim>\<open>.\<close> element\<close>
        clean_loop rooted cs dotdot out
      else if c = CHR ''.'' \<and> hd cs = CHR ''.'' \<and> at_end_or_sep (tl cs) then
        \<comment> \<open>\<^verbatim>\<open>..\<close> element: remove to last separator\<close>
        (if length out > dotdot then
           clean_loop rooted (tl cs) dotdot (backtrack dotdot out)
         else if \<not> rooted then
           (let out' = (if length out > 0 then out @ ''/'' else out) @ ''..''
            in clean_loop rooted (tl cs) (length out') out')
         else clean_loop rooted (tl cs) dotdot out)
      else
        \<comment> \<open>real path element: add slash if needed, copy element\<close>
        (let out' = (if rooted \<and> length out \<noteq> 1 \<or> \<not> rooted \<and> length out \<noteq> 0
                     then out @ ''/'' else out)
         in clean_loop rooted (dropWhile (\<lambda>x. \<not> IsPathSeparator x) cs) dotdot
              (out' @ c # takeWhile (\<lambda>x. \<not> IsPathSeparator x) cs)))"
  by pat_completeness auto
termination
  by (relation "measure (\<lambda>(rooted, path, dotdot, out). length path)")
     (auto simp: less_Suc_eq_le length_dropWhile_le intro: le_trans [OF diff_le_self])

definition Clean :: "string \<Rightarrow> string" where
  "Clean path =
     (if path = [] then ''.''
      else
        let rooted = IsPathSeparator (hd path);
            out = (if rooted then snd (clean_loop rooted (tl path) 1 ''/'')
                   else snd (clean_loop rooted path 0 []))
        in if length out = 0 then ''.'' else out)"

text \<open>
  \<^verbatim>\<open>filepath.Base\<close>: strip trailing slashes, keep what follows the last
  separator; an empty path gives \<^verbatim>\<open>.\<close>, a path of slashes gives \<^verbatim>\<open>/\<close>.
\<close>

definition strip_trailing :: "string \<Rightarrow> string" where
  "strip_trailing path = rev (dropWhile IsPathSeparator (rev path))"

definition last_element :: "string \<Rightarrow> string" where
  "last_element path = rev (takeWhile (\<lambda>x. \<not> IsPathSeparator x) (rev path))"

definition Base :: "string \<Rightarrow> string" where
  "Base path =
     (if path = [] then ''.''
      else
        let path1 = last_element (strip_trailing path)
        in if path1 = [] then ''/'' else path1)"

text \<open>
  \<^verbatim>\<open>filepath.Join\<close>: the elements from the first non-empty one on, joined
  with the separator and cleaned; the empty string when all are empty.
\<close>

fun join_sep :: "string list \<Rightarrow> string" where
  "join_sep [] = []"
| "join_sep [e] = e"
| "join_sep (e # es) = e @ ''/'' @ join_sep es"

fun Join :: "string list \<Rightarrow> string" where
  "Join [] = []"
| "Join (e # es) = (if e \<noteq> [] then Clean (join_sep (e # es)) else Join es)"

subsection \<open>\<^verbatim>\<open>net\<close>: host and port\<close>

definition IndexByte :: "string \<Rightarrow> char \<Rightarrow> nat option" where
  "IndexByte s c =
     (if c \<in> set s then Some (length (takeWhile (\<lambda>x. x \<noteq> c) s)) else None)"

definition LastIndexByte :: "string \<Rightarrow> char \<Rightarrow> nat option" where
  "LastIndexByte s c =
     (if c \<in> set s then Some (length s - 1 - length (takeWhile (\<lambda>x. x \<noteq> c) (rev s)))
      else None)"

definition JoinHostPort :: "string \<Rightarrow> string \<Rightarrow> string" where
  "JoinHostPort host port =
     (if IndexByte host CHR '':'' \<noteq> None then ''['' @ host @ '']:'' @ port
      else host @ '':'' @ port)"

text \<open>
  The two bracket checks that end \<^verbatim>\<open>net.SplitHostPort\<close>, with the indices
  \<open>j\<close> and \<open>k\<close> its branches set, and the port after the last colon at \<open>i\<close>.
\<close>

definition split_tail :: "string \<Rightarrow> nat \<Rightarrow> nat \<Rightarrow> nat \<Rightarrow> string \<Rightarrow> error + string \<times> string" where
  "split_tail hostport i j k host =
     (if IndexByte (drop j hostport) CHR ''['' \<noteq> None
        then Inl (Errno ''unexpected [ in address'')
      else if IndexByte (drop k hostport) CHR '']'' \<noteq> None
        then Inl (Errno ''unexpected ] in address'')
      else Inr (host, drop (i + 1) hostport))"

definition SplitHostPort :: "string \<Rightarrow> error + string \<times> string" where
  "SplitHostPort hostport =
     (case LastIndexByte hostport CHR '':'' of
        None \<Rightarrow> Inl (Errno ''missing port in address'')
      | Some i \<Rightarrow>
          if hd hostport = CHR ''['' then
            (case IndexByte hostport CHR '']'' of
               None \<Rightarrow> Inl (Errno ''missing ] in address'')
             | Some e \<Rightarrow>
                 if e + 1 = length hostport then Inl (Errno ''missing port in address'')
                 else if e + 1 = i then
                   split_tail hostport i 1 (e + 1) (take (e - 1) (drop 1 hostport))
                 else if hostport ! (e + 1) = CHR '':''
                   then Inl (Errno ''too many colons in address'')
                 else Inl (Errno ''missing port in address''))
          else
            (let host = take i hostport
             in if IndexByte host CHR '':'' \<noteq> None
                  then Inl (Errno ''too many colons in address'')
                else split_tail hostport i 0 0 host))"

subsection \<open>The filesystem\<close>

text \<open>
  The operating system is the program's environment.  A directory is known by its
  cleaned path (there are no symbolic links); asking for it gives an error (it is
  missing, or access is denied) or its entries, each a name with a regular file's
  bytes or the mark of a subdirectory, in the order the filesystem enumerates them.
\<close>

datatype node = Regular string | Directory

type_synonym filesystem = "string \<Rightarrow> error + (string \<times> node) list"

text \<open>
  A path as written names an entry of a directory: the entry's name follows the last
  separator, the directory is what stands before it.
\<close>

definition path_name :: "string \<Rightarrow> string" where
  "path_name p = rev (takeWhile (\<lambda>x. x \<noteq> CHR ''/'') (rev p))"

definition path_dir :: "string \<Rightarrow> string" where
  "path_dir p =
     (let pre = take (length p - length (path_name p)) p
      in if pre = [] then ''.'' else if pre = ''/'' then ''/'' else butlast pre)"

text \<open>
  \<^verbatim>\<open>os.Create\<close> creates the named file or truncates it.  It fails on the empty
  path, when the directory cannot be reached, and when the path names a directory.
\<close>

definition os_Create :: "filesystem \<Rightarrow> string \<Rightarrow> error + filesystem" where
  "os_Create fs p =
     (if p = [] then Inl (Errno ''ENOENT'')
      else
        case fs (path_dir p) of
          Inl e \<Rightarrow> Inl e
        | Inr ents \<Rightarrow>
            if path_name p = [] \<or> path_name p = ''.'' \<or> path_name p = ''..''
              then Inl (Errno ''EISDIR'')
            else
              (case map_of ents (path_name p) of
                 Some Directory \<Rightarrow> Inl (Errno ''EISDIR'')
               | _ \<Rightarrow>
                   Inr (fs(path_dir p := Inr (AList.update (path_name p) (Regular []) ents)))))"

text \<open>
  A part's content once opened (\<^verbatim>\<open>multipart.File\<close>): the bytes the reader
  yields, and the error it ends with when it does not end with \<^verbatim>\<open>io.EOF\<close>.
\<close>

record multipart_File =
  bytes :: string
  fault :: "error option"

text \<open>
  \<^verbatim>\<open>io.Copy(dst, src)\<close> on a file just created at path \<open>p\<close>: every byte read
  reaches the file, and the reader's error, if any, is the error of the copy.
\<close>

definition write_file :: "filesystem \<Rightarrow> string \<Rightarrow> string \<Rightarrow> filesystem" where
  "write_file fs p content =
     (case fs (path_dir p) of
        Inl e \<Rightarrow> fs
      | Inr ents \<Rightarrow> fs(path_dir p := Inr (AList.update (path_name p) (Regular content) ents)))"

definition io_Copy :: "filesystem \<Rightarrow> string \<Rightarrow> multipart_File \<Rightarrow> filesystem \<times> error option" where
  "io_Copy fs p src = (write_file fs p (bytes src), fault src)"

record DirEntry =
  Name :: string
  IsDir :: bool

definition dir_entry :: "string \<times> node \<Rightarrow> DirEntry" where
  "dir_entry e = \<lparr>Name = fst e, IsDir = (snd e = Directory)\<rparr>"

text \<open>
  \<^verbatim>\<open>os.ReadDir\<close> reads the whole directory and returns its entries sorted by
  filename (\<^verbatim>\<open>slices.SortFunc\<close> on \<^verbatim>\<open>Name()\<close>, compared as byte strings).
\<close>

definition os_ReadDir :: "filesystem \<Rightarrow> string \<Rightarrow> error + DirEntry list" where
  "os_ReadDir fs dir =
     (if dir = [] then Inl (Errno ''ENOENT'')
      else
        case fs (Clean dir) of
          Inl e \<Rightarrow> Inl e
        | Inr ents \<Rightarrow> Inr (sort_key Name (map dir_entry ents)))"

text \<open>The content of the regular file at a path, if there is one.\<close>

definition file_at :: "filesystem \<Rightarrow> string \<Rightarrow> string option" where
  "file_at fs p =
     (case fs (path_dir p) of
        Inl e \<Rightarrow> None
      | Inr ents \<Rightarrow>
          (case map_of ents (path_name p) of Some (Regular content) \<Rightarrow> Some content | _ \<Rightarrow> None))"

section \<open>The program\<close>

subsection \<open>Configuration\<close>

record config =
  NoEmbed :: bool
  StoreDir :: string
  ListenAddr :: string
  Port :: string

definition newConfig :: config where
  "newConfig = \<lparr>NoEmbed = False, StoreDir = ''files'', ListenAddr = ''localhost'', Port = ''1323''\<rparr>"

text \<open>
  The command line after \<^verbatim>\<open>flag.Parse\<close>: for each flag the value given on the
  command line, or \<open>None\<close> when the flag is absent.  A flag that is absent has its
  default.
\<close>

record flags =
  flag_listen :: "string option"
  flag_no_embed :: "bool option"
  flag_store :: "string option"
  flag_version :: "bool option"
  flag_help :: "bool option"

definition flag_value :: "'a option \<Rightarrow> 'a \<Rightarrow> 'a" where
  "flag_value given dflt = (case given of None \<Rightarrow> dflt | Some v \<Rightarrow> v)"

text \<open>
  \<^verbatim>\<open>parseCli\<close> returns the configuration, or the process exits: with status 0
  after the help or the version, with status 1 from \<^verbatim>\<open>log.Fatalln\<close>.
\<close>

definition parseCli :: "flags \<Rightarrow> nat + config" where
  "parseCli args =
     (let c = newConfig;
          hostPort = flag_value (flag_listen args) (JoinHostPort (ListenAddr c) (Port c));
          noEmbed = flag_value (flag_no_embed args) (NoEmbed c);
          storeDir = flag_value (flag_store args) (StoreDir c);
          showVersion = flag_value (flag_version args) False;
          showHelp = flag_value (flag_help args) False
      in if showHelp then Inl 0
         else if showVersion then Inl 0
         else
           (let c = c\<lparr>NoEmbed := noEmbed, StoreDir := storeDir\<rparr>
            in case SplitHostPort hostPort of
                 Inl err \<Rightarrow> Inl 1
               | Inr (h, p) \<Rightarrow>
                   (let h = (if h = [] then ''0.0.0.0'' else h)
                    in Inr (c\<lparr>ListenAddr := h, Port := p\<rparr>))))"

subsection \<open>Requests and responses\<close>

record FileHeader =
  Filename :: string
  Open :: "error + multipart_File"

text \<open>
  \<^verbatim>\<open>form.File\<close> is a Go map from field names to slices of file headers: a name
  that is absent gives the empty slice.
\<close>

record Form =
  File :: "string \<Rightarrow> FileHeader list"

record page =
  Title :: string
  Files :: "string list"

text \<open>
  The request's context: the outcome of \<^verbatim>\<open>c.MultipartForm()\<close>, and the
  registered renderer (\<^verbatim>\<open>Template.Render\<close>), which fails or writes the page.
\<close>

record Context =
  MultipartForm :: "error + Form"
  Renderer :: "string \<Rightarrow> page \<Rightarrow> error option"

record response =
  status :: nat
  view :: string
  model :: page

text \<open>
  What a handler hands back to the framework: the error it returns, or \<open>nil\<close>
  together with the response it has written, if any.
\<close>

type_synonym reply = "error + response option"

definition Render :: "Context \<Rightarrow> nat \<Rightarrow> string \<Rightarrow> page \<Rightarrow> reply" where
  "Render c code name v =
     (case Renderer c name v of
        Some err \<Rightarrow> Inl err
      | None \<Rightarrow> Inr (Some \<lparr>status = code, view = name, model = v\<rparr>))"

definition StatusOK :: nat where
  "StatusOK = 200"

subsection \<open>Handlers\<close>

definition listCurrentDir :: "filesystem \<Rightarrow> string \<Rightarrow> string list" where
  "listCurrentDir fs dir =
     (case os_ReadDir fs dir of
        Inl err \<Rightarrow> []
      | Inr des \<Rightarrow> map Name des)"

definition listFiles :: "Context \<Rightarrow> config \<Rightarrow> filesystem \<Rightarrow> reply" where
  "listFiles c conf fs =
     Render c StatusOK ''main.html''
       \<lparr>Title = ''Uploader'', Files = listCurrentDir fs (StoreDir conf)\<rparr>"

text \<open>
  The filename sanitizer, lines 255 to 258 of \<^verbatim>\<open>uploadFiles\<close>:
  \<^verbatim>\<open>
  filename := filepath.Base(filepath.Clean(file.Filename))
  if filename == "." || filename == "/" {
      return fmt.Errorf("invalid filename")
  }
  \<close>
\<close>

definition sanitize :: "string \<Rightarrow> error + string" where
  "sanitize name =
     (let filename = Base (Clean name)
      in if filename = ''.'' \<or> filename = ''/'' then Inl InvalidFilename
         else Inr filename)"

text \<open>
  The loop of \<^verbatim>\<open>uploadFiles\<close> over the file parts.  It leaves by a
  \<^verbatim>\<open>return\<close> with an error or with \<^verbatim>\<open>nil\<close>, or it runs to the end.  The
  deferred \<^verbatim>\<open>Close\<close> calls change nothing that is modelled.
\<close>

datatype loop_exit = Returned "error option" | Finished

fun upload_loop :: "config \<Rightarrow> FileHeader list \<Rightarrow> filesystem \<Rightarrow> loop_exit \<times> filesystem" where
  "upload_loop conf [] fs = (Finished, fs)"
| "upload_loop conf (file # files) fs =
     (case Open file of
        Inl err \<Rightarrow> (Returned (Some err), fs)
      | Inr src \<Rightarrow>
          (case sanitize (Filename file) of
             Inl err \<Rightarrow> (Returned (Some err), fs)
           | Inr filename \<Rightarrow>
               (let filename = Join [StoreDir conf, filename]
                in case os_Create fs filename of
                     Inl err \<Rightarrow> (Returned (Some err), fs)
                   | Inr fs1 \<Rightarrow>
                       (case io_Copy fs1 filename src of
                          (fs2, Some err) \<Rightarrow> (Returned None, fs2)
                        | (fs2, None) \<Rightarrow> upload_loop conf files fs2))))"

definition uploadFiles :: "Context \<Rightarrow> config \<Rightarrow> filesystem \<Rightarrow> reply \<times> filesystem" where
  "uploadFiles c conf fs =
     (case MultipartForm c of
        Inl err \<Rightarrow> (Inl err, fs)
      | Inr form \<Rightarrow>
          (case upload_loop conf (File form ''upload'') fs of
             (Returned (Some err), fs') \<Rightarrow> (Inl err, fs')
           | (Returned None, fs') \<Rightarrow> (Inr None, fs')
           | (Finished, fs') \<Rightarrow> (listFiles c conf fs', fs')))"

section \<open>Notions used to state the properties\<close>

text \<open>
  A path lies inside a directory when it is the directory's cleaned path, a separator
  and one ordinary name: not empty, not \<^verbatim>\<open>.\<close>, not \<^verbatim>\<open>..\<close> and free of
  separators.  \<open>dir_prefix\<close> is what stands before the name: the cleaned path
  \<^verbatim>\<open>.\<close> contributes nothing, and the root is its own separator.
\<close>

definition dir_prefix :: "string \<Rightarrow> string" where
  "dir_prefix d = (if d = ''/'' then ''/'' else if d = ''.'' then [] else d @ ''/'')"

definition inside :: "string \<Rightarrow> string \<Rightarrow> bool" where
  "inside dir p =
     (let pre = dir_prefix (Clean dir); b = drop (length pre) p
      in take (length pre) p = pre \<and> b \<noteq> [] \<and> b \<noteq> ''.'' \<and> b \<noteq> ''..''
         \<and> CHR ''/'' \<notin> set b)"

text \<open>
  An ordinary name is one path element that names an entry: not empty, not
  \<^verbatim>\<open>.\<close>, not \<^verbatim>\<open>..\<close> and free of separators.
\<close>

definition ordinary :: "string \<Rightarrow> bool" where
  "ordinary b = (b \<noteq> [] \<and> b \<noteq> ''.'' \<and> b \<noteq> ''..'' \<and> CHR ''/'' \<notin> set b)"

subsection \<open>The branches of the cleaning loop\<close>

text \<open>
  The tests and the buffer updates of \<^verbatim>\<open>filepath.Clean\<close>'s loop, named so that
  each branch can be stated on its own: the element at the read position is
  \<^verbatim>\<open>.\<close>, or \<^verbatim>\<open>..\<close>; the buffer with the separator a real element needs;
  the buffer with \<^verbatim>\<open>..\<close> appended.
\<close>

definition is_dot :: "char \<Rightarrow> string \<Rightarrow> bool" where
  "is_dot c cs = (c = CHR ''.'' \<and> at_end_or_sep cs)"

definition is_dotdot :: "char \<Rightarrow> string \<Rightarrow> bool" where
  "is_dotdot c cs = (c = CHR ''.'' \<and> hd cs = CHR ''.'' \<and> at_end_or_sep (tl cs))"

definition slash_if_needed :: "bool \<Rightarrow> string \<Rightarrow> string" where
  "slash_if_needed rooted out =
     (if rooted \<and> length out \<noteq> 1 \<or> \<not> rooted \<and> length out \<noteq> 0 then out @ ''/'' else out)"

definition with_dotdot :: "string \<Rightarrow> string" where
  "with_dotdot out = (if length out > 0 then out @ ''/'' else out) @ ''..''"

text \<open>
  What the loop keeps true of its buffer.  On a rooted path the buffer starts with the
  separator and \<open>dotdot\<close> stays 1.  Otherwise \<open>dotdot\<close> is never 1, the buffer
  does not start with a separator, and its first element is not \<^verbatim>\<open>.\<close>.
\<close>

definition buffer_ok :: "bool \<Rightarrow> nat \<Rightarrow> string \<Rightarrow> bool" where
  "buffer_ok rooted dotdot out =
     (if rooted then dotdot = 1 \<and> out \<noteq> [] \<and> hd out = CHR ''/''
      else dotdot \<noteq> 1 \<and> takeWhile (\<lambda>x. \<not> IsPathSeparator x) out \<noteq> ''.''
           \<and> (out \<noteq> [] \<longrightarrow> hd out \<noteq> CHR ''/''))"

text \<open>The names of a directory in the order the filesystem enumerates them.\<close>

definition enumeration :: "filesystem \<Rightarrow> string \<Rightarrow> string list" where
  "enumeration fs dir = (case fs (Clean dir) of Inl e \<Rightarrow> [] | Inr ents \<Rightarrow> map fst ents)"

subsection \<open>Example data\<close>

text \<open>
  A command line without flags; a filesystem whose only directory is \<^verbatim>\<open>files\<close>;
  a file part that opens, with its name, its bytes and the error its reader ends with;
  a request whose form holds the given parts under \<^verbatim>\<open>upload\<close> and whose
  template renders.
\<close>

definition no_flags :: flags where
  "no_flags = \<lparr>flag_listen = None, flag_no_embed = None, flag_store = None,
                flag_version = None, flag_help = None\<rparr>"

definition fs_of :: "(string \<times> node) list \<Rightarrow> filesystem" where
  "fs_of ents = (\<lambda>d. Inl (Errno ''ENOENT''))(''files'' := Inr ents)"

definition part_of :: "string \<Rightarrow> string \<Rightarrow> error option \<Rightarrow> FileHeader" where
  "part_of name content err =
     \<lparr>Filename = name, Open = Inr \<lparr>bytes = content, fault = err\<rparr>\<rparr>"

definition request_of :: "FileHeader list \<Rightarrow> Context" where
  "request_of parts =
     \<lparr>MultipartForm = Inr \<lparr>File = (\<lambda>field. [])(''upload'' := parts)\<rparr>,
      Renderer = (\<lambda>name v. None)\<rparr>"

section \<open>Properties\<close>

subsection \<open>Auxiliary facts\<close>

lemma upload_loop_append:
  "upload_loop conf pre fs = (Finished, fs1) \<Longrightarrow>
   upload_loop conf (pre @ rest) fs = upload_loop conf rest fs1"
proof (induction pre arbitrary: fs)
  case Nil
  then show ?case by simp
next
  case (Cons part pre)
  then show ?case
    by (auto simp: Let_def simp del: Join.simps split: sum.splits prod.splits option.splits)
qed

lemma Base_not_empty: "Base path \<noteq> []"
  by (simp add: Base_def Let_def)

lemma Join_files_report: "Join [''files'', ''report.txt''] = ''files/report.txt''"
  by code_simp

lemma sanitize_report: "sanitize ''report.txt'' = Inr ''report.txt''"
  by code_simp

lemma sanitize_dot: "sanitize ''.'' = Inl InvalidFilename"
  by code_simp

lemma path_dir_report: "path_dir ''files/report.txt'' = ''files''"
  by code_simp

lemma path_name_report: "path_name ''files/report.txt'' = ''report.txt''"
  by code_simp

lemma create_report:
  "map_of ents ''report.txt'' \<noteq> Some Directory \<Longrightarrow>
   os_Create (fs_of ents) ''files/report.txt''
     = Inr (fs_of (AList.update ''report.txt'' (Regular []) ents))"
  by (auto simp: os_Create_def fs_of_def path_dir_report path_name_report
           split: option.splits node.splits)

lemma write_report:
  "write_file (fs_of ents) ''files/report.txt'' content
     = fs_of (AList.update ''report.txt'' (Regular content) ents)"
  by (simp add: write_file_def fs_of_def path_dir_report path_name_report)

lemma upload_report:
  "map_of ents ''report.txt'' \<noteq> Some Directory \<Longrightarrow>
   upload_loop newConfig (part_of ''report.txt'' content err # rest) (fs_of ents)
     = (case err of
          Some e \<Rightarrow> (Returned None, fs_of (AList.update ''report.txt'' (Regular content) ents))
        | None \<Rightarrow> upload_loop newConfig rest
                    (fs_of (AList.update ''report.txt'' (Regular content) ents)))"
  by (simp add: part_of_def sanitize_report newConfig_def Join_files_report create_report
        io_Copy_def write_report del: Join.simps split: option.splits)

lemma map_insort_key: "map f (insort_key f x ys) = insort (f x) (map f ys)"
  by (induction ys) simp_all

lemma map_sort_key: "map f (sort_key f xs) = sort (map f xs)"
  by (induction xs) (simp_all add: map_insort_key)

lemma Name_dir_entry: "map Name (map dir_entry ents) = map fst ents"
  by (simp add: dir_entry_def)

lemma ReadDir_names:
  "os_ReadDir fs dir = Inr des \<Longrightarrow> map Name des = sort (enumeration fs dir)"
  by (auto simp: os_ReadDir_def enumeration_def map_sort_key Name_dir_entry
           simp del: map_map split: if_splits sum.splits)

lemma Clean_files: "Clean ''files'' = ''files''"
  by code_simp

lemma Clean_missing: "Clean ''missing'' = ''missing''"
  by code_simp

lemma SplitHostPort_default: "SplitHostPort ''localhost:1323'' = Inr (''localhost'', ''1323'')"
  by code_simp

lemma JoinHostPort_default: "JoinHostPort ''localhost'' ''1323'' = ''localhost:1323''"
  by code_simp

subsection \<open>The cleaning loop, branch by branch\<close>

lemma step_sep:
  "IsPathSeparator c \<Longrightarrow> clean_loop rooted (c # cs) dotdot out = clean_loop rooted cs dotdot out"
  by simp

lemma step_dot:
  "\<not> IsPathSeparator c \<Longrightarrow> is_dot c cs \<Longrightarrow>
   clean_loop rooted (c # cs) dotdot out = clean_loop rooted cs dotdot out"
  by (simp add: is_dot_def)

lemma step_dotdot:
  assumes "\<not> IsPathSeparator c" and "\<not> is_dot c cs" and "is_dotdot c cs"
  shows "clean_loop rooted (c # cs) dotdot out
           = (if dotdot < length out
                then clean_loop rooted (tl cs) dotdot (backtrack dotdot out)
              else if \<not> rooted
                then clean_loop rooted (tl cs) (length (with_dotdot out)) (with_dotdot out)
              else clean_loop rooted (tl cs) dotdot out)"
proof -
  have conds: "IsPathSeparator c = False" "(c = CHR ''.'' \<and> at_end_or_sep cs) = False"
    "(c = CHR ''.'' \<and> hd cs = CHR ''.'' \<and> at_end_or_sep (tl cs)) = True"
    using assms by (simp_all add: is_dot_def is_dotdot_def)
  show ?thesis
    unfolding clean_loop.simps(2) [of rooted c cs] conds with_dotdot_def Let_def
    by (simp only: if_False if_True)
qed

lemma step_pop:
  "\<not> IsPathSeparator c \<Longrightarrow> \<not> is_dot c cs \<Longrightarrow> is_dotdot c cs \<Longrightarrow> dotdot < length out \<Longrightarrow>
   clean_loop rooted (c # cs) dotdot out = clean_loop rooted (tl cs) dotdot (backtrack dotdot out)"
  by (simp add: step_dotdot del: clean_loop.simps)

lemma step_push:
  "\<not> IsPathSeparator c \<Longrightarrow> \<not> is_dot c cs \<Longrightarrow> is_dotdot c cs \<Longrightarrow> \<not> dotdot < length out \<Longrightarrow>
   \<not> rooted \<Longrightarrow>
   clean_loop rooted (c # cs) dotdot out
     = clean_loop rooted (tl cs) (length (with_dotdot out)) (with_dotdot out)"
  by (simp add: step_dotdot del: clean_loop.simps)

lemma step_stay:
  "\<not> IsPathSeparator c \<Longrightarrow> \<not> is_dot c cs \<Longrightarrow> is_dotdot c cs \<Longrightarrow> \<not> dotdot < length out \<Longrightarrow>
   rooted \<Longrightarrow>
   clean_loop rooted (c # cs) dotdot out = clean_loop rooted (tl cs) dotdot out"
  by (simp add: step_dotdot del: clean_loop.simps)

lemma step_real:
  assumes "\<not> IsPathSeparator c" and "\<not> is_dot c cs" and "\<not> is_dotdot c cs"
  shows "clean_loop rooted (c # cs) dotdot out
     = clean_loop rooted (dropWhile (\<lambda>x. \<not> IsPathSeparator x) cs) dotdot
         (slash_if_needed rooted out @ c # takeWhile (\<lambda>x. \<not> IsPathSeparator x) cs)"
proof -
  have conds: "IsPathSeparator c = False" "(c = CHR ''.'' \<and> at_end_or_sep cs) = False"
    "(c = CHR ''.'' \<and> hd cs = CHR ''.'' \<and> at_end_or_sep (tl cs)) = False"
    using assms by (simp_all add: is_dot_def is_dotdot_def)
  show ?thesis
    unfolding clean_loop.simps(2) [of rooted c cs] conds slash_if_needed_def Let_def
    by (simp only: if_False)
qed

lemma at_end_or_sep_Nil [simp]: "at_end_or_sep []"
  by (simp add: at_end_or_sep_def)

lemma at_end_or_sep_append:
  "at_end_or_sep (cs @ CHR ''/'' # ys) = at_end_or_sep cs"
  by (cases cs) (simp_all add: at_end_or_sep_def IsPathSeparator_def)

lemma is_dot_append: "is_dot c (cs @ CHR ''/'' # ys) = is_dot c cs"
  by (simp add: is_dot_def at_end_or_sep_append)

lemma is_dotdot_append:
  "\<not> is_dot c cs \<Longrightarrow> is_dotdot c (cs @ CHR ''/'' # ys) = is_dotdot c cs"
  by (cases cs) (simp_all add: is_dot_def is_dotdot_def at_end_or_sep_append)

lemma is_dotdot_tl:
  "\<not> is_dot c cs \<Longrightarrow> is_dotdot c cs \<Longrightarrow> tl (cs @ CHR ''/'' # ys) = tl cs @ CHR ''/'' # ys"
  by (cases cs) (simp_all add: is_dot_def is_dotdot_def)

lemma takeWhile_element_append:
  "takeWhile (\<lambda>x. \<not> IsPathSeparator x) (cs @ CHR ''/'' # ys)
     = takeWhile (\<lambda>x. \<not> IsPathSeparator x) cs"
  by (induction cs) (simp_all add: IsPathSeparator_def)

lemma dropWhile_element_append:
  "dropWhile (\<lambda>x. \<not> IsPathSeparator x) (cs @ CHR ''/'' # ys)
     = dropWhile (\<lambda>x. \<not> IsPathSeparator x) cs @ CHR ''/'' # ys"
  by (induction cs) (simp_all add: IsPathSeparator_def)

lemma clean_loop_cases [case_names sep dot pop push stay real]:
  assumes "IsPathSeparator c \<Longrightarrow> P"
    and "\<not> IsPathSeparator c \<Longrightarrow> is_dot c cs \<Longrightarrow> P"
    and "\<not> IsPathSeparator c \<Longrightarrow> \<not> is_dot c cs \<Longrightarrow> is_dotdot c cs \<Longrightarrow> dotdot < length out \<Longrightarrow> P"
    and "\<not> IsPathSeparator c \<Longrightarrow> \<not> is_dot c cs \<Longrightarrow> is_dotdot c cs \<Longrightarrow> \<not> dotdot < length out
          \<Longrightarrow> \<not> rooted \<Longrightarrow> P"
    and "\<not> IsPathSeparator c \<Longrightarrow> \<not> is_dot c cs \<Longrightarrow> is_dotdot c cs \<Longrightarrow> \<not> dotdot < length out
          \<Longrightarrow> rooted \<Longrightarrow> P"
    and "\<not> IsPathSeparator c \<Longrightarrow> \<not> is_dot c cs \<Longrightarrow> \<not> is_dotdot c cs \<Longrightarrow> P"
  shows P
  using assms by blast

lemma clean_loop_split:
  "clean_loop rooted (xs @ CHR ''/'' # ys) dotdot out
     = clean_loop rooted ys (fst (clean_loop rooted xs dotdot out))
         (snd (clean_loop rooted xs dotdot out))"
proof (induction xs arbitrary: rooted dotdot out rule: length_induct)
  case (1 xs)
  show ?case
  proof (cases xs)
    case Nil
    then show ?thesis by (simp add: IsPathSeparator_def)
  next
    case (Cons c cs)
    have IH: "clean_loop r (zs @ CHR ''/'' # ys) dd buf
                = clean_loop r ys (fst (clean_loop r zs dd buf))
                    (snd (clean_loop r zs dd buf))"
      if "length zs \<le> length cs" for zs dd buf r
      using 1 that Cons by simp
    have tl_le: "length (tl cs) \<le> length cs"
      by simp
    have dw_le: "length (dropWhile (\<lambda>x. \<not> IsPathSeparator x) cs) \<le> length cs"
      by (rule length_dropWhile_le)
    let ?zs = "cs @ CHR ''/'' # ys"
    have l: "clean_loop rooted (xs @ CHR ''/'' # ys) dotdot out = clean_loop rooted (c # ?zs) dotdot out"
      using Cons by simp
    show ?thesis
    proof (cases rule: clean_loop_cases [where c = c and cs = cs and dotdot = dotdot and out = out and rooted = rooted])
      case sep
      then show ?thesis
        by (simp add: Cons step_sep IH [OF order_refl] del: clean_loop.simps)
    next
      case dot
      then show ?thesis
        by (simp add: Cons step_dot is_dot_append IH [OF order_refl] del: clean_loop.simps)
    next
      case pop
      then show ?thesis
        by (simp add: Cons step_pop is_dot_append is_dotdot_append is_dotdot_tl IH [OF tl_le]
              del: clean_loop.simps)
    next
      case push
      then show ?thesis
        by (simp add: Cons step_push is_dot_append is_dotdot_append is_dotdot_tl IH [OF tl_le]
              del: clean_loop.simps)
    next
      case stay
      then show ?thesis
        by (simp add: Cons step_stay is_dot_append is_dotdot_append is_dotdot_tl IH [OF tl_le]
              del: clean_loop.simps)
    next
      case real
      then show ?thesis
        by (simp add: Cons step_real is_dot_append is_dotdot_append takeWhile_element_append
              dropWhile_element_append IH [OF dw_le] del: clean_loop.simps)
    qed
  qed
qed

subsection \<open>What the cleaning loop keeps true of its buffer\<close>

lemma retreat_le: "retreat dotdot buf w \<le> w"
proof (induction dotdot buf w rule: retreat.induct)
  case (1 dotdot buf w)
  show ?case
  proof (cases "w > dotdot \<and> \<not> IsPathSeparator (buf ! w)")
    case True
    with 1 have "retreat dotdot buf (w - 1) \<le> w - 1" by simp
    with True show ?thesis by (subst retreat.simps) simp
  next
    case False
    then show ?thesis by (subst retreat.simps) auto
  qed
qed

lemma retreat_ge: "dotdot \<le> w \<Longrightarrow> dotdot \<le> retreat dotdot buf w"
proof (induction dotdot buf w rule: retreat.induct)
  case (1 dotdot buf w)
  show ?case
  proof (cases "w > dotdot \<and> \<not> IsPathSeparator (buf ! w)")
    case True
    then have "dotdot \<le> w - 1" by auto
    with 1(1) [OF True] have "dotdot \<le> retreat dotdot buf (w - 1)" by simp
    with True show ?thesis by (subst retreat.simps) simp
  next
    case False
    with 1(2) show ?thesis by (subst retreat.simps) auto
  qed
qed

lemma retreat_stop:
  "dotdot \<le> w \<Longrightarrow> retreat dotdot buf w = dotdot \<or> IsPathSeparator (buf ! retreat dotdot buf w)"
proof (induction dotdot buf w rule: retreat.induct)
  case (1 dotdot buf w)
  show ?case
  proof (cases "w > dotdot \<and> \<not> IsPathSeparator (buf ! w)")
    case True
    then have "dotdot \<le> w - 1" by auto
    with 1(1) [OF True] have "retreat dotdot buf (w - 1) = dotdot
                 \<or> IsPathSeparator (buf ! retreat dotdot buf (w - 1))" by simp
    with True show ?thesis by (subst (1 2) retreat.simps) simp
  next
    case False
    with 1(2) show ?thesis by (subst (1 2) retreat.simps) auto
  qed
qed

lemma first_element_take:
  assumes "takeWhile (\<lambda>x. \<not> IsPathSeparator x) out \<noteq> ''.''"
    and "k = 1 \<longrightarrow> IsPathSeparator (out ! 1)"
    and "k < length out"
  shows "takeWhile (\<lambda>x. \<not> IsPathSeparator x) (take k out) \<noteq> ''.''"
proof (cases out)
  case Nil
  with assms show ?thesis by simp
next
  case (Cons a as)
  show ?thesis
  proof (cases k)
    case 0
    then show ?thesis by simp
  next
    case (Suc n)
    show ?thesis
    proof (cases n)
      case 0
      with Suc assms Cons show ?thesis
        by (cases as) (auto split: if_splits)
    next
      case (Suc m)
      with \<open>k = Suc n\<close> assms Cons show ?thesis
        by (cases as) (auto split: if_splits)
    qed
  qed
qed

lemma buffer_ok_backtrack:
  assumes "buffer_ok rooted dotdot out" and "dotdot < length out"
  shows "buffer_ok rooted dotdot (backtrack dotdot out)"
proof -
  define k where "k = retreat dotdot out (length out - 1)"
  have le: "dotdot \<le> length out - 1"
    using assms(2) by simp
  have k_ge: "dotdot \<le> k" and k_lt: "k < length out"
    and k_stop: "k = dotdot \<or> IsPathSeparator (out ! k)"
    using retreat_ge [OF le, of out] retreat_le [of dotdot out "length out - 1"]
      retreat_stop [OF le, of out] assms(2)
    by (simp_all add: k_def)
  have bt: "backtrack dotdot out = take k out"
    by (simp add: backtrack_def k_def)
  show ?thesis
  proof (cases rooted)
    case True
    with assms(1) have "dotdot = 1" "out \<noteq> []" "hd out = CHR ''/''"
      by (simp_all add: buffer_ok_def)
    with k_ge have "take k out \<noteq> []" "hd (take k out) = CHR ''/''"
      by (cases out; cases k; simp)+
    with True \<open>dotdot = 1\<close> show ?thesis
      unfolding bt by (simp add: buffer_ok_def)
  next
    case False
    with assms(1) have dd: "dotdot \<noteq> 1"
      and fe: "takeWhile (\<lambda>x. \<not> IsPathSeparator x) out \<noteq> ''.''"
      and h: "out \<noteq> [] \<longrightarrow> hd out \<noteq> CHR ''/''"
      by (simp_all add: buffer_ok_def)
    have "k = 1 \<longrightarrow> IsPathSeparator (out ! 1)"
      using k_stop dd by auto
    with fe have "takeWhile (\<lambda>x. \<not> IsPathSeparator x) (take k out) \<noteq> ''.''"
      using k_lt by (rule first_element_take)
    moreover have "take k out \<noteq> [] \<longrightarrow> hd (take k out) \<noteq> CHR ''/''"
      using h by (cases out; cases k; simp)
    ultimately show ?thesis
      using False dd unfolding bt by (simp add: buffer_ok_def)
  qed
qed

lemma buffer_ok_with_dotdot:
  assumes "buffer_ok False dotdot out"
  shows "buffer_ok False (length (with_dotdot out)) (with_dotdot out)"
proof (cases out)
  case Nil
  then show ?thesis
    by (simp add: buffer_ok_def with_dotdot_def IsPathSeparator_def)
next
  case (Cons a as)
  with assms have a: "a \<noteq> CHR ''/''"
    and fe: "takeWhile (\<lambda>x. \<not> IsPathSeparator x) (a # as) \<noteq> ''.''"
    by (simp_all add: buffer_ok_def)
  have "takeWhile (\<lambda>x. \<not> IsPathSeparator x) ((a # as) @ ''/..'')
          = takeWhile (\<lambda>x. \<not> IsPathSeparator x) (a # as)"
    using takeWhile_element_append [of "a # as" "''..''"] by simp
  with fe a Cons show ?thesis
    by (simp add: buffer_ok_def with_dotdot_def)
qed

lemma buffer_ok_element:
  assumes "buffer_ok rooted dotdot out" and "\<not> IsPathSeparator c" and "\<not> is_dot c cs"
  shows "buffer_ok rooted dotdot
           (slash_if_needed rooted out @ c # takeWhile (\<lambda>x. \<not> IsPathSeparator x) cs)"
proof (cases rooted)
  case True
  with assms(1) show ?thesis
    by (cases out) (simp_all add: buffer_ok_def slash_if_needed_def)
next
  case False
  with assms(1) have dd: "dotdot \<noteq> 1"
    and fe: "takeWhile (\<lambda>x. \<not> IsPathSeparator x) out \<noteq> ''.''"
    and h: "out \<noteq> [] \<longrightarrow> hd out \<noteq> CHR ''/''"
    by (simp_all add: buffer_ok_def)
  let ?el = "c # takeWhile (\<lambda>x. \<not> IsPathSeparator x) cs"
  show ?thesis
  proof (cases out)
    case Nil
    have "takeWhile (\<lambda>x. \<not> IsPathSeparator x) ?el \<noteq> ''.''"
      using assms(2,3) by (cases cs) (auto simp: is_dot_def at_end_or_sep_def)
    with Nil False dd assms(2) show ?thesis
      by (simp add: buffer_ok_def slash_if_needed_def IsPathSeparator_def)
  next
    case (Cons a as)
    have "takeWhile (\<lambda>x. \<not> IsPathSeparator x) ((a # as) @ CHR ''/'' # ?el)
            = takeWhile (\<lambda>x. \<not> IsPathSeparator x) (a # as)"
      by (rule takeWhile_element_append)
    with Cons False dd fe h show ?thesis
      by (simp add: buffer_ok_def slash_if_needed_def)
  qed
qed

lemma clean_loop_ok:
  "buffer_ok rooted dotdot out \<Longrightarrow>
   buffer_ok rooted (fst (clean_loop rooted xs dotdot out)) (snd (clean_loop rooted xs dotdot out))"
proof (induction xs arbitrary: dotdot out rule: length_induct)
  case (1 xs)
  show ?case
  proof (cases xs)
    case Nil
    with 1(2) show ?thesis by simp
  next
    case (Cons c cs)
    have IH: "buffer_ok rooted (fst (clean_loop rooted zs dd buf)) (snd (clean_loop rooted zs dd buf))"
      if "length zs \<le> length cs" and "buffer_ok rooted dd buf" for zs dd buf
      using 1(1) that Cons by simp
    have tl_le: "length (tl cs) \<le> length cs"
      by simp
    have dw_le: "length (dropWhile (\<lambda>x. \<not> IsPathSeparator x) cs) \<le> length cs"
      by (rule length_dropWhile_le)
    note ok = \<open>buffer_ok rooted dotdot out\<close>
    show ?thesis
    proof (cases rule: clean_loop_cases [where c = c and cs = cs and dotdot = dotdot and out = out and rooted = rooted])
      case sep
      then show ?thesis
        using IH [OF order_refl ok] by (simp add: Cons step_sep del: clean_loop.simps)
    next
      case dot
      then show ?thesis
        using IH [OF order_refl ok] by (simp add: Cons step_dot del: clean_loop.simps)
    next
      case pop
      then show ?thesis
        using IH [OF tl_le buffer_ok_backtrack [OF ok]]
        by (simp add: Cons step_pop del: clean_loop.simps)
    next
      case push
      then show ?thesis
        using IH [OF tl_le, of "length (with_dotdot out)" "with_dotdot out"]
          buffer_ok_with_dotdot [of dotdot out] ok
        by (simp add: Cons step_push del: clean_loop.simps)
    next
      case stay
      then show ?thesis
        using IH [OF tl_le ok] by (simp add: Cons step_stay del: clean_loop.simps)
    next
      case real
      then show ?thesis
        using IH [OF dw_le buffer_ok_element [OF ok]]
        by (simp add: Cons step_real del: clean_loop.simps)
    qed
  qed
qed

subsection \<open>Joining a directory and an ordinary name\<close>

lemma clean_loop_ordinary:
  assumes "ordinary b"
  shows "clean_loop rooted b dotdot out = (dotdot, slash_if_needed rooted out @ b)"
proof -
  from assms obtain c cs where b: "b = c # cs"
    by (cases b) (simp_all add: ordinary_def)
  have nosep: "\<forall>x \<in> set (c # cs). \<not> IsPathSeparator x"
    using assms b by (auto simp: ordinary_def IsPathSeparator_def)
  then have tw: "takeWhile (\<lambda>x. \<not> IsPathSeparator x) cs = cs"
    and dw: "dropWhile (\<lambda>x. \<not> IsPathSeparator x) cs = []"
    by simp_all
  have dot: "\<not> is_dot c cs"
    using assms b nosep by (cases cs) (auto simp: ordinary_def is_dot_def at_end_or_sep_def)
  have dotdot: "\<not> is_dotdot c cs"
  proof (cases cs)
    case Nil
    with dot show ?thesis by (simp add: is_dot_def is_dotdot_def)
  next
    case (Cons d ds)
    with assms b nosep show ?thesis
      by (cases ds) (auto simp: ordinary_def is_dotdot_def at_end_or_sep_def)
  qed
  have sep: "\<not> IsPathSeparator c"
    using nosep by simp
  show ?thesis
    unfolding b step_real [OF sep dot dotdot] tw dw by simp
qed


lemma Clean_Nil: "Clean [] = ''.''"
  by (simp add: Clean_def)

lemma Clean_ordinary:
  assumes "ordinary b"
  shows "Clean b = b"
proof -
  have ne: "b \<noteq> []"
    using assms by (simp add: ordinary_def)
  then have nr: "IsPathSeparator (hd b) = False"
    using assms by (cases b) (auto simp: ordinary_def IsPathSeparator_def)
  have loop: "snd (clean_loop False b 0 []) = b"
    by (simp only: clean_loop_ordinary [OF assms] slash_if_needed_def snd_conv
          list.size if_False simp_thms append_Nil)
  show ?thesis
    unfolding Clean_def Let_def nr if_False loop using ne by simp
qed

lemma Clean_append_ordinary:
  assumes "d \<noteq> []" and "ordinary b"
  shows "Clean (d @ CHR ''/'' # b) = dir_prefix (Clean d) @ b"
proof (cases "IsPathSeparator (hd d)")
  case True
  define st where "st = clean_loop True (tl d) 1 ''/''"
  have "buffer_ok True 1 ''/''"
    by (simp add: buffer_ok_def)
  then have "buffer_ok True (fst st) (snd st)"
    unfolding st_def by (rule clean_loop_ok)
  then have ne: "snd st \<noteq> []" and hd: "hd (snd st) = CHR ''/''"
    by (simp_all add: buffer_ok_def)
  have cd: "Clean d = snd st"
    using assms(1) True ne by (simp add: Clean_def Let_def st_def del: clean_loop.simps)
  have "tl (d @ CHR ''/'' # b) = tl d @ CHR ''/'' # b"
    using assms(1) by simp
  then have "clean_loop True (tl (d @ CHR ''/'' # b)) 1 ''/''
               = (fst st, slash_if_needed True (snd st) @ b)"
    by (simp only: clean_loop_split st_def [symmetric] clean_loop_ordinary [OF assms(2)])
  moreover have "b \<noteq> []"
    using assms(2) by (simp add: ordinary_def)
  ultimately have "Clean (d @ CHR ''/'' # b) = slash_if_needed True (snd st) @ b"
    using assms(1) True
    by (simp add: Clean_def Let_def del: clean_loop.simps)
  moreover have "slash_if_needed True (snd st) = dir_prefix (snd st)"
    using ne hd by (cases "snd st") (auto simp: slash_if_needed_def dir_prefix_def)
  ultimately show ?thesis
    by (simp add: cd)
next
  case False
  define st where "st = clean_loop False d 0 []"
  have "buffer_ok False 0 []"
    by (simp add: buffer_ok_def)
  then have "buffer_ok False (fst st) (snd st)"
    unfolding st_def by (rule clean_loop_ok)
  then have fe: "takeWhile (\<lambda>x. \<not> IsPathSeparator x) (snd st) \<noteq> ''.''"
    and hd: "snd st \<noteq> [] \<longrightarrow> hd (snd st) \<noteq> CHR ''/''"
    by (simp_all add: buffer_ok_def)
  have nodot: "snd st \<noteq> ''.''"
    using fe by (auto simp: IsPathSeparator_def)
  have noroot: "snd st \<noteq> ''/''"
    using hd by auto
  have cd: "Clean d = (if snd st = [] then ''.'' else snd st)"
    using assms(1) False by (simp add: Clean_def Let_def st_def del: clean_loop.simps)
  have "clean_loop False (d @ CHR ''/'' # b) 0 []
          = (fst st, slash_if_needed False (snd st) @ b)"
    by (simp only: clean_loop_split st_def [symmetric] clean_loop_ordinary [OF assms(2)])
  moreover have "b \<noteq> []"
    using assms(2) by (simp add: ordinary_def)
  ultimately have "Clean (d @ CHR ''/'' # b) = slash_if_needed False (snd st) @ b"
    using assms(1) False
    by (simp add: Clean_def Let_def del: clean_loop.simps)
  moreover have "slash_if_needed False (snd st) = dir_prefix (Clean d)"
    using nodot noroot by (simp add: cd slash_if_needed_def dir_prefix_def)
  ultimately show ?thesis
    by simp
qed

lemma Join_ordinary:
  assumes "ordinary b"
  shows "Join [d, b] = dir_prefix (Clean d) @ b"
proof (cases "d = []")
  case True
  have "b \<noteq> []"
    using assms by (simp add: ordinary_def)
  with True show ?thesis
    by (simp add: Clean_ordinary [OF assms] Clean_Nil dir_prefix_def)
next
  case False
  then show ?thesis
    by (simp add: Clean_append_ordinary [OF False assms])
qed



lemma Base_no_separator: "Base path = ''/'' \<or> CHR ''/'' \<notin> set (Base path)"
proof -
  have "CHR ''/'' \<notin> set (last_element p)" for p
    by (auto simp: last_element_def IsPathSeparator_def dest: set_takeWhileD)
  then show ?thesis
    by (simp add: Base_def Let_def)
qed

lemma sanitize_ordinary:
  assumes "sanitize name = Inr b" and "b \<noteq> ''..''"
  shows "ordinary b"
proof -
  from assms(1) have b: "b = Base (Clean name)" and "b \<noteq> ''.''" and "b \<noteq> ''/''"
    by (auto simp: sanitize_def Let_def split: if_splits)
  moreover from b have "b \<noteq> []"
    by (simp add: Base_not_empty)
  moreover from b \<open>b \<noteq> ''/''\<close> have "CHR ''/'' \<notin> set b"
    using Base_no_separator [of "Clean name"] by simp
  ultimately show ?thesis
    using assms(2) by (simp add: ordinary_def)
qed

lemma inside_ordinary: "ordinary b \<Longrightarrow> inside dir (Join [dir, b])"
  by (simp add: Join_ordinary inside_def Let_def ordinary_def del: Join.simps)

lemma sanitized_path_inside:
  "sanitize name = Inr b \<Longrightarrow> b \<noteq> ''..'' \<Longrightarrow> inside dir (Join [dir, b])"
  by (rule inside_ordinary) (rule sanitize_ordinary)








subsection \<open>The sanitizer\<close>

text \<open>
  C2: the sanitizer cleans the filename and takes its last element; it fails with the
  invalid-filename error exactly when that basename is empty, \<^verbatim>\<open>.\<close> or
  \<^verbatim>\<open>/\<close>, and returns the basename otherwise.  When it fails for a part that
  opened, the handler returns that error and the filesystem is as it was before the part.
\<close>

theorem sanitize_rejects_degenerate:
  "sanitize name =
     (if Base (Clean name) = [] \<or> Base (Clean name) = ''.'' \<or> Base (Clean name) = ''/''
      then Inl InvalidFilename else Inr (Base (Clean name)))
   \<and> (Open part = Inr src \<and> sanitize (Filename part) = Inl err
        \<longrightarrow> err = InvalidFilename
            \<and> upload_loop conf (part # parts) fs = (Returned (Some err), fs))"
  by (auto simp: sanitize_def Let_def Base_not_empty split: if_splits)

theorem sanitize_rejects_degenerate_witness:
  "sanitize ''.'' = Inl InvalidFilename
   \<and> sanitize ''report.txt'' = Inr ''report.txt''
   \<and> upload_loop newConfig [part_of ''.'' ''abc'' None, part_of ''report.txt'' ''abc'' None] (fs_of [])
       = (Returned (Some InvalidFilename), fs_of [])"
proof -
  have open_ok: "Open (part_of ''.'' ''abc'' None) = Inr \<lparr>bytes = ''abc'', fault = None\<rparr>"
    and name: "Filename (part_of ''.'' ''abc'' None) = ''.''"
    by (simp_all add: part_of_def)
  show ?thesis
    using sanitize_rejects_degenerate
      [of "''.''" "part_of ''.'' ''abc'' None" "\<lparr>bytes = ''abc'', fault = None\<rparr>"
          InvalidFilename newConfig "[part_of ''report.txt'' ''abc'' None]" "fs_of []"]
      open_ok name sanitize_dot sanitize_report
    by simp
qed

text \<open>
  C1 fails at the filename \<^verbatim>\<open>..\<close>: the sanitizer accepts it, since its
  basename \<^verbatim>\<open>..\<close> is neither \<^verbatim>\<open>.\<close> nor \<^verbatim>\<open>/\<close>, and joined with the
  store directory \<^verbatim>\<open>files\<close> it gives \<^verbatim>\<open>.\<close>, the parent of the store
  directory, which does not lie inside it.  (For every other name the sanitizer
  accepts, the joined path lies inside the store directory: \<open>sanitized_path_inside\<close>.)
\<close>

theorem dotdot_filename_leaves_store:
  "sanitize ''..'' = Inr ''..''
   \<and> Join [''files'', ''..''] = ''.''
   \<and> \<not> inside ''files'' (Join [''files'', ''..''])"
proof -
  have "sanitize ''..'' = Inr ''..''"
    by code_simp
  moreover have j: "Join [''files'', ''..''] = ''.''"
    by code_simp
  moreover have "\<not> inside ''files'' ''.''"
    by (simp add: inside_def Clean_files dir_prefix_def)
  ultimately show ?thesis
    by (simp del: Join.simps)
qed

subsection \<open>The upload handler\<close>

text \<open>
  C3: when a part's destination file was created and copying the part's bytes into it
  fails, the upload handler returns \<^verbatim>\<open>nil\<close>: no error reaches the client.
\<close>

theorem copy_error_swallowed:
  assumes "MultipartForm c = Inr form"
    and "File form ''upload'' = pre @ part # rest"
    and "upload_loop conf pre fs = (Finished, fs1)"
    and "Open part = Inr src"
    and "sanitize (Filename part) = Inr name"
    and "os_Create fs1 (Join [StoreDir conf, name]) = Inr fs2"
    and "snd (io_Copy fs2 (Join [StoreDir conf, name]) src) = Some err"
  shows "fst (uploadFiles c conf fs) = Inr None \<and> (\<forall>e. fst (uploadFiles c conf fs) \<noteq> Inl e)"
proof -
  have "upload_loop conf (part # rest) fs1
          = (Returned None, fst (io_Copy fs2 (Join [StoreDir conf, name]) src))"
    using assms(4-7)
    by (cases "io_Copy fs2 (Join [StoreDir conf, name]) src") (simp add: Let_def del: Join.simps)
  then have "upload_loop conf (pre @ part # rest) fs
          = (Returned None, fst (io_Copy fs2 (Join [StoreDir conf, name]) src))"
    using upload_loop_append [OF assms(3)] by simp
  then show ?thesis
    using assms(1,2) by (simp add: uploadFiles_def)
qed

theorem copy_error_swallowed_witness:
  "fst (uploadFiles (request_of [part_of ''report.txt'' ''ab'' (Some (Errno ''unexpected EOF''))])
          newConfig (fs_of [])) = Inr None"
proof -
  let ?bad = "part_of ''report.txt'' ''ab'' (Some (Errno ''unexpected EOF''))"
  let ?src = "\<lparr>bytes = ''ab'', fault = Some (Errno ''unexpected EOF'')\<rparr>"
  have h1: "MultipartForm (request_of [?bad]) = Inr \<lparr>File = (\<lambda>field. [])(''upload'' := [?bad])\<rparr>"
    by (simp add: request_of_def)
  have h2: "File \<lparr>File = (\<lambda>field. [])(''upload'' := [?bad])\<rparr> ''upload'' = [] @ ?bad # []"
    by simp
  have h3: "upload_loop newConfig [] (fs_of []) = (Finished, fs_of [])"
    by simp
  have h4: "Open ?bad = Inr ?src"
    by (simp add: part_of_def)
  have h5: "sanitize (Filename ?bad) = Inr ''report.txt''"
    by (simp add: part_of_def sanitize_report)
  have h6: "os_Create (fs_of []) (Join [StoreDir newConfig, ''report.txt''])
              = Inr (fs_of (AList.update ''report.txt'' (Regular []) []))"
    by (simp add: newConfig_def Join_files_report create_report del: Join.simps)
  have h7: "snd (io_Copy (fs_of (AList.update ''report.txt'' (Regular []) []))
                   (Join [StoreDir newConfig, ''report.txt'']) ?src)
              = Some (Errno ''unexpected EOF'')"
    by (simp add: io_Copy_def)
  show ?thesis
    using copy_error_swallowed [OF h1 h2 h3 h4 h5 h6 h7] by simp
qed

text \<open>
  C5: the parts are handled in the order received.  At the first part whose filename the
  sanitizer rejects, the handler returns that error, and the filesystem is the one the
  earlier parts left: what they wrote stays written.
\<close>

theorem sanitize_failure_stops_upload:
  assumes "MultipartForm c = Inr form"
    and "File form ''upload'' = pre @ part # rest"
    and "upload_loop conf pre fs = (Finished, fs1)"
    and "Open part = Inr src"
    and "sanitize (Filename part) = Inl err"
  shows "uploadFiles c conf fs = (Inl err, fs1) \<and> err = InvalidFilename"
proof -
  have "upload_loop conf (part # rest) fs1 = (Returned (Some err), fs1)"
    using assms(4,5) by simp
  then have "upload_loop conf (pre @ part # rest) fs = (Returned (Some err), fs1)"
    using upload_loop_append [OF assms(3)] by simp
  moreover have "err = InvalidFilename"
    using assms(5) by (auto simp: sanitize_def Let_def split: if_splits)
  ultimately show ?thesis
    using assms(1,2) by (simp add: uploadFiles_def)
qed

theorem sanitize_failure_stops_upload_witness:
  "fst (uploadFiles (request_of [part_of ''report.txt'' ''abc'' None, part_of ''.'' ''x'' None,
                                  part_of ''later.txt'' ''y'' None])
          newConfig (fs_of [])) = Inl InvalidFilename
   \<and> file_at (snd (uploadFiles (request_of [part_of ''report.txt'' ''abc'' None,
                      part_of ''.'' ''x'' None, part_of ''later.txt'' ''y'' None])
          newConfig (fs_of []))) ''files/report.txt'' = Some ''abc''
   \<and> file_at (snd (uploadFiles (request_of [part_of ''report.txt'' ''abc'' None,
                      part_of ''.'' ''x'' None, part_of ''later.txt'' ''y'' None])
          newConfig (fs_of []))) ''files/later.txt'' = None"
proof -
  let ?p1 = "part_of ''report.txt'' ''abc'' None"
  let ?p2 = "part_of ''.'' ''x'' None"
  let ?p3 = "part_of ''later.txt'' ''y'' None"
  let ?form = "\<lparr>File = (\<lambda>field. [])(''upload'' := [?p1, ?p2, ?p3])\<rparr>"
  let ?fs1 = "fs_of (AList.update ''report.txt'' (Regular ''abc'') [])"
  have h1: "MultipartForm (request_of [?p1, ?p2, ?p3]) = Inr ?form"
    by (simp add: request_of_def)
  have h2: "File ?form ''upload'' = [?p1] @ ?p2 # [?p3]"
    by simp
  have h3: "upload_loop newConfig [?p1] (fs_of []) = (Finished, ?fs1)"
    by (simp add: upload_report del: upload_loop.simps(2))
  have h4: "Open ?p2 = Inr \<lparr>bytes = ''x'', fault = None\<rparr>"
    by (simp add: part_of_def)
  have h5: "sanitize (Filename ?p2) = Inl InvalidFilename"
    by (simp add: part_of_def sanitize_dot)
  have "path_dir ''files/later.txt'' = ''files''" "path_name ''files/later.txt'' = ''later.txt''"
    by code_simp+
  then have "file_at ?fs1 ''files/later.txt'' = None"
    "file_at ?fs1 ''files/report.txt'' = Some ''abc''"
    by (simp_all add: file_at_def fs_of_def path_dir_report path_name_report)
  then show ?thesis
    using sanitize_failure_stops_upload [OF h1 h2 h3 h4 h5] by simp
qed

text \<open>
  C10: when copying a part's bytes fails, the handler returns at once: the filesystem is
  the one the failing copy left, whatever parts follow, and the reply carries neither an
  error nor a rendered page, so the list handler did not run.
\<close>

theorem copy_error_returns_immediately:
  assumes "MultipartForm c = Inr form"
    and "File form ''upload'' = pre @ part # rest"
    and "upload_loop conf pre fs = (Finished, fs1)"
    and "Open part = Inr src"
    and "sanitize (Filename part) = Inr name"
    and "os_Create fs1 (Join [StoreDir conf, name]) = Inr fs2"
    and "io_Copy fs2 (Join [StoreDir conf, name]) src = (fs3, Some err)"
  shows "upload_loop conf (pre @ part # rest) fs = (Returned None, fs3)
         \<and> uploadFiles c conf fs = (Inr None, fs3)"
proof -
  have "upload_loop conf (part # rest) fs1 = (Returned None, fs3)"
    using assms(4-7) by (simp add: Let_def del: Join.simps)
  then have "upload_loop conf (pre @ part # rest) fs = (Returned None, fs3)"
    using upload_loop_append [OF assms(3)] by simp
  then show ?thesis
    using assms(1,2) by (simp add: uploadFiles_def)
qed

theorem copy_error_returns_immediately_witness:
  "fst (uploadFiles (request_of [part_of ''report.txt'' ''ab'' (Some (Errno ''unexpected EOF'')),
                                  part_of ''later.txt'' ''y'' None])
          newConfig (fs_of [])) = Inr None
   \<and> file_at (snd (uploadFiles (request_of [part_of ''report.txt'' ''ab'' (Some (Errno ''unexpected EOF'')),
                                  part_of ''later.txt'' ''y'' None])
          newConfig (fs_of []))) ''files/later.txt'' = None"
proof -
  let ?bad = "part_of ''report.txt'' ''ab'' (Some (Errno ''unexpected EOF''))"
  let ?p3 = "part_of ''later.txt'' ''y'' None"
  let ?src = "\<lparr>bytes = ''ab'', fault = Some (Errno ''unexpected EOF'')\<rparr>"
  let ?form = "\<lparr>File = (\<lambda>field. [])(''upload'' := [?bad, ?p3])\<rparr>"
  let ?fs3 = "fs_of (AList.update ''report.txt'' (Regular ''ab'') [])"
  have h1: "MultipartForm (request_of [?bad, ?p3]) = Inr ?form"
    by (simp add: request_of_def)
  have h2: "File ?form ''upload'' = [] @ ?bad # [?p3]"
    by simp
  have h3: "upload_loop newConfig [] (fs_of []) = (Finished, fs_of [])"
    by simp
  have h4: "Open ?bad = Inr ?src"
    by (simp add: part_of_def)
  have h5: "sanitize (Filename ?bad) = Inr ''report.txt''"
    by (simp add: part_of_def sanitize_report)
  have h6: "os_Create (fs_of []) (Join [StoreDir newConfig, ''report.txt''])
              = Inr (fs_of (AList.update ''report.txt'' (Regular []) []))"
    by (simp add: newConfig_def Join_files_report create_report del: Join.simps)
  have h7: "io_Copy (fs_of (AList.update ''report.txt'' (Regular []) []))
                   (Join [StoreDir newConfig, ''report.txt'']) ?src
              = (?fs3, Some (Errno ''unexpected EOF''))"
    by (simp add: io_Copy_def newConfig_def Join_files_report write_report del: Join.simps)
  have "path_dir ''files/later.txt'' = ''files''" "path_name ''files/later.txt'' = ''later.txt''"
    by code_simp+
  then have "file_at ?fs3 ''files/later.txt'' = None"
    by (simp add: file_at_def fs_of_def)
  then show ?thesis
    using copy_error_returns_immediately [OF h1 h2 h3 h4 h5 h6 h7] by simp
qed



subsection \<open>The list handler\<close>

text \<open>
  C6, as stated, fails: the files of the page are not in the order the filesystem
  enumerates the directory.  A directory enumerated as \<^verbatim>\<open>b\<close>, \<^verbatim>\<open>a\<close> is
  listed as \<^verbatim>\<open>a\<close>, \<^verbatim>\<open>b\<close>, because \<^verbatim>\<open>os.ReadDir\<close> sorts by filename.
\<close>

theorem listing_in_enumeration_order_counterexample:
  "listFiles (request_of []) newConfig (fs_of [(''b'', Regular ''x''), (''a'', Regular ''y'')])
     = Inr (Some \<lparr>status = 200, view = ''main.html'',
                   model = \<lparr>Title = ''Uploader'', Files = [''a'', ''b'']\<rparr>\<rparr>)
   \<and> enumeration (fs_of [(''b'', Regular ''x''), (''a'', Regular ''y'')]) (StoreDir newConfig)
       = [''b'', ''a'']"
proof -
  have "sort [''b'', ''a''] = [''a'', ''b'']"
    by code_simp
  then show ?thesis
    by (simp add: listFiles_def listCurrentDir_def os_ReadDir_def enumeration_def newConfig_def
          Clean_files fs_of_def Render_def request_of_def StatusOK_def dir_entry_def
          map_sort_key [symmetric])
qed

text \<open>
  C6, amended: when the store directory is read successfully, the list handler renders
  \<^verbatim>\<open>main.html\<close> with the title \<^verbatim>\<open>Uploader\<close> and the names of the entries
  that \<^verbatim>\<open>os.ReadDir\<close> returned, in the order it returned them: the directory's
  names sorted by filename, as many as the directory has, the same names, and without
  duplicates when the directory has none.  The handler sorts nothing itself.
\<close>

theorem listing_sorted_by_name:
  assumes "os_ReadDir fs (StoreDir conf) = Inr des"
  shows "listFiles c conf fs
           = Render c StatusOK ''main.html'' \<lparr>Title = ''Uploader'', Files = map Name des\<rparr>
         \<and> map Name des = sort (enumeration fs (StoreDir conf))
         \<and> length (map Name des) = length (enumeration fs (StoreDir conf))
         \<and> set (map Name des) = set (enumeration fs (StoreDir conf))
         \<and> (distinct (enumeration fs (StoreDir conf)) \<longrightarrow> distinct (map Name des))"
proof -
  have "listFiles c conf fs
          = Render c StatusOK ''main.html'' \<lparr>Title = ''Uploader'', Files = map Name des\<rparr>"
    using assms by (simp add: listFiles_def listCurrentDir_def)
  moreover have "map Name des = sort (enumeration fs (StoreDir conf))"
    using assms by (rule ReadDir_names)
  ultimately show ?thesis
    by (simp del: map_map)
qed

theorem listing_sorted_by_name_witness:
  "listFiles (request_of []) newConfig (fs_of [(''b'', Regular ''x''), (''a'', Directory)])
     = Render (request_of []) StatusOK ''main.html''
         \<lparr>Title = ''Uploader'', Files = [''a'', ''b'']\<rparr>"
proof -
  let ?fs = "fs_of [(''b'', Regular ''x''), (''a'', Directory)]"
  have sorted: "sort_key Name [\<lparr>Name = ''b'', IsDir = False\<rparr>, \<lparr>Name = ''a'', IsDir = True\<rparr>]
                 = [\<lparr>Name = ''a'', IsDir = True\<rparr>, \<lparr>Name = ''b'', IsDir = False\<rparr>]"
    by code_simp
  have h: "os_ReadDir ?fs (StoreDir newConfig)
             = Inr [\<lparr>Name = ''a'', IsDir = True\<rparr>, \<lparr>Name = ''b'', IsDir = False\<rparr>]"
    by (simp add: os_ReadDir_def newConfig_def Clean_files fs_of_def dir_entry_def sorted
             del: sort_key_simps)
  show ?thesis
    using listing_sorted_by_name [OF h, of "request_of []"] by simp
qed

text \<open>
  C7: when reading the store directory fails, whatever the error, the list of files is
  empty and the list handler returns what rendering \<^verbatim>\<open>main.html\<close> with status 200
  and no files returns: a response with status 200 whenever the template renders.
\<close>

theorem list_read_failure_gives_empty_page:
  assumes "os_ReadDir fs (StoreDir conf) = Inl err"
  shows "listCurrentDir fs (StoreDir conf) = []
         \<and> listFiles c conf fs
             = Render c StatusOK ''main.html'' \<lparr>Title = ''Uploader'', Files = []\<rparr>
         \<and> (Renderer c ''main.html'' \<lparr>Title = ''Uploader'', Files = []\<rparr> = None \<longrightarrow>
              listFiles c conf fs
                = Inr (Some \<lparr>status = 200, view = ''main.html'',
                              model = \<lparr>Title = ''Uploader'', Files = []\<rparr>\<rparr>))"
  using assms by (simp add: listFiles_def listCurrentDir_def Render_def StatusOK_def)

theorem list_read_failure_gives_empty_page_witness:
  "listFiles (request_of []) (newConfig\<lparr>StoreDir := ''missing''\<rparr>) (fs_of [(''a'', Regular ''x'')])
     = Inr (Some \<lparr>status = 200, view = ''main.html'',
                   model = \<lparr>Title = ''Uploader'', Files = []\<rparr>\<rparr>)"
proof -
  have h: "os_ReadDir (fs_of [(''a'', Regular ''x'')]) (StoreDir (newConfig\<lparr>StoreDir := ''missing''\<rparr>))
             = Inl (Errno ''ENOENT'')"
    by (simp add: os_ReadDir_def Clean_missing fs_of_def)
  have r: "Renderer (request_of []) ''main.html'' \<lparr>Title = ''Uploader'', Files = []\<rparr> = None"
    by (simp add: request_of_def)
  show ?thesis
    using list_read_failure_gives_empty_page [OF h, of "request_of []"] r
    by (simp add: Render_def StatusOK_def)
qed

subsection \<open>Uploads that run to the end\<close>

text \<open>
  C8: when the form parses and the loop over the parts under \<^verbatim>\<open>upload\<close> runs to
  its end, the upload handler returns what the list handler returns on the filesystem
  the loop left.  With no parts, that filesystem is the one the request found.
\<close>

theorem upload_success_delegates_to_list:
  assumes "MultipartForm c = Inr form"
  shows "(upload_loop conf (File form ''upload'') fs = (Finished, fs') \<longrightarrow>
            uploadFiles c conf fs = (listFiles c conf fs', fs'))
         \<and> (File form ''upload'' = [] \<longrightarrow> uploadFiles c conf fs = (listFiles c conf fs, fs))"
  using assms by (simp add: uploadFiles_def)

theorem upload_success_delegates_to_list_witness:
  "uploadFiles (request_of []) newConfig (fs_of [(''a'', Regular ''x'')])
     = (listFiles (request_of []) newConfig (fs_of [(''a'', Regular ''x'')]),
        fs_of [(''a'', Regular ''x'')])
   \<and> uploadFiles (request_of [part_of ''report.txt'' ''abc'' None]) newConfig (fs_of [])
     = (listFiles (request_of [part_of ''report.txt'' ''abc'' None]) newConfig
          (fs_of [(''report.txt'', Regular ''abc'')]),
        fs_of [(''report.txt'', Regular ''abc'')])"
proof -
  let ?p = "part_of ''report.txt'' ''abc'' None"
  have h0: "MultipartForm (request_of []) = Inr \<lparr>File = (\<lambda>field. [])(''upload'' := [])\<rparr>"
    by (simp add: request_of_def)
  have h1: "MultipartForm (request_of [?p]) = Inr \<lparr>File = (\<lambda>field. [])(''upload'' := [?p])\<rparr>"
    by (simp add: request_of_def)
  have l1: "upload_loop newConfig [?p] (fs_of []) = (Finished, fs_of [(''report.txt'', Regular ''abc'')])"
    by (simp add: upload_report del: upload_loop.simps(2))
  show ?thesis
    using upload_success_delegates_to_list [OF h0, of newConfig "fs_of [(''a'', Regular ''x'')]"]
      upload_success_delegates_to_list [OF h1, of newConfig "fs_of []"
        "fs_of [(''report.txt'', Regular ''abc'')]"] l1
    by simp
qed

subsection \<open>The command line\<close>

text \<open>
  C9, as stated, fails: without \<^verbatim>\<open>-listen\<close> the configuration's address is
  \<^verbatim>\<open>localhost\<close>, the loopback interface, not \<^verbatim>\<open>0.0.0.0\<close>.
\<close>

theorem default_listen_address_counterexample:
  "parseCli no_flags
     = Inr \<lparr>NoEmbed = False, StoreDir = ''files'', ListenAddr = ''localhost'', Port = ''1323''\<rparr>
   \<and> ''localhost'' \<noteq> ''0.0.0.0''"
  by (simp add: parseCli_def no_flags_def newConfig_def flag_value_def
        JoinHostPort_default SplitHostPort_default)

text \<open>
  C9, amended: when no \<^verbatim>\<open>-listen\<close> option is given (and neither the help nor the
  version is asked for), the configuration listens on \<^verbatim>\<open>localhost\<close>, port
  \<^verbatim>\<open>1323\<close>.
\<close>

theorem default_listen_address:
  assumes "flag_listen args = None"
    and "flag_value (flag_help args) False = False"
    and "flag_value (flag_version args) False = False"
  shows "parseCli args
           = Inr \<lparr>NoEmbed = flag_value (flag_no_embed args) False,
                  StoreDir = flag_value (flag_store args) ''files'',
                  ListenAddr = ''localhost'', Port = ''1323''\<rparr>"
  using assms
  by (simp add: parseCli_def newConfig_def flag_value_def Let_def
        JoinHostPort_default SplitHostPort_default split: option.splits)

theorem default_listen_address_witness:
  "parseCli (no_flags\<lparr>flag_store := Some ''/srv/upl''\<rparr>)
     = Inr \<lparr>NoEmbed = False, StoreDir = ''/srv/upl'', ListenAddr = ''localhost'', Port = ''1323''\<rparr>"
  using default_listen_address [of "no_flags\<lparr>flag_store := Some ''/srv/upl''\<rparr>"]
  by (simp add: no_flags_def flag_value_def)

end
